theory Spec2Isabelle
  imports Complex_Main "HOL-Library.AList" "HOL-Library.Sublist"
begin

text \<open>
  A model of the two core parts of the Threads analytics collector: the API client
  (\<open>threads_api/client.py\<close>: rate-limited requests, the paginated listing of posts, the
  fetch of post insights in sub-batches with an in-memory cache) and the credential store
  (\<open>utils/crypto_utils.py\<close>: sealing, unsealing and looking up credentials). Python
  values are JSON values, exceptions are the left summand of a sum type, the state of the
  client, of the network and of the file system is passed explicitly, and the external
  libraries (requests, Fernet, json) appear as the answers of the environment or as
  parameters.
\<close>

section \<open>Python values and exceptions\<close>

text \<open>
  The exceptions that the modelled code can raise or catch. \<open>RequestException\<close> stands for
  a transport failure of \<open>requests.get\<close>; \<open>HTTPError\<close> is what
  \<open>Response.raise_for_status\<close> raises and carries the status code; \<open>OSError\<close> is a
  refused file operation and \<open>InvalidToken\<close> the rejection of a token by Fernet.
\<close>

datatype py_error =
    RequestException
  | HTTPError nat
  | JSONDecodeError
  | AttributeError
  | TypeError
  | KeyError
  | IndexError
  | ValueError
  | OSError
  | UnicodeDecodeError
  | InvalidToken

text \<open>
  A decoded JSON document, as \<open>json.loads\<close> and \<open>Response.json\<close> return it.
  Numbers are reals (Python's int and float compare equal when they denote the same
  number); an object is a dict, kept as an association list in insertion order.
\<close>

datatype json =
    JNull
  | JBool bool
  | JNum real
  | JStr string
  | JArr "json list"
  | JObj "(string \<times> json) list"

text \<open>Sequencing of computations that may raise: the first exception wins.\<close>

definition ebind :: "'e + 'a \<Rightarrow> ('a \<Rightarrow> 'e + 'b) \<Rightarrow> 'e + 'b" where
  "ebind m f = (case m of Inl e \<Rightarrow> Inl e | Inr x \<Rightarrow> f x)"

text \<open>Python truth value of a JSON value (\<open>if x:\<close>).\<close>

fun truthy :: "json \<Rightarrow> bool" where
  "truthy JNull = False"
| "truthy (JBool b) = b"
| "truthy (JNum r) = (r \<noteq> 0)"
| "truthy (JStr s) = (s \<noteq> [])"
| "truthy (JArr xs) = (xs \<noteq> [])"
| "truthy (JObj kvs) = (kvs \<noteq> [])"

text \<open>\<open>x.get(k, default)\<close>: only a dict has the method.\<close>

fun dict_get :: "json \<Rightarrow> string \<Rightarrow> json \<Rightarrow> py_error + json" where
  "dict_get (JObj kvs) k dflt = Inr (case map_of kvs k of Some v \<Rightarrow> v | None \<Rightarrow> dflt)"
| "dict_get _ k dflt = Inl AttributeError"

text \<open>\<open>x[k]\<close> with a string key.\<close>

fun subscript :: "json \<Rightarrow> string \<Rightarrow> py_error + json" where
  "subscript (JObj kvs) k = (case map_of kvs k of Some v \<Rightarrow> Inr v | None \<Rightarrow> Inl KeyError)"
| "subscript _ k = Inl TypeError"

text \<open>\<open>x[0]\<close>.\<close>

fun subscript0 :: "json \<Rightarrow> py_error + json" where
  "subscript0 (JArr []) = Inl IndexError"
| "subscript0 (JArr (x # xs)) = Inr x"
| "subscript0 (JStr []) = Inl IndexError"
| "subscript0 (JStr (c # cs)) = Inr (JStr [c])"
| "subscript0 (JObj kvs) = Inl KeyError"
| "subscript0 _ = Inl TypeError"

text \<open>\<open>k in x\<close> for a string \<open>k\<close>: key of a dict, element of a list, substring of a string.\<close>

fun contains :: "json \<Rightarrow> string \<Rightarrow> py_error + bool" where
  "contains (JObj kvs) k = Inr (k \<in> fst ` set kvs)"
| "contains (JArr xs) k = Inr (JStr k \<in> set xs)"
| "contains (JStr s) k = Inr (sublist k s)"
| "contains _ k = Inl TypeError"

text \<open>Iteration (\<open>for m in x\<close>, \<open>list.extend(x)\<close>): a dict yields its keys, a string its characters.\<close>

fun iterate :: "json \<Rightarrow> py_error + json list" where
  "iterate (JArr xs) = Inr xs"
| "iterate (JObj kvs) = Inr (map (\<lambda>kv. JStr (fst kv)) kvs)"
| "iterate (JStr s) = Inr (map (\<lambda>c. JStr [c]) s)"
| "iterate _ = Inl TypeError"

text \<open>
  Use of a JSON value as a dict key: lists and dicts are unhashable; \<open>True\<close> and \<open>1\<close>
  (\<open>False\<close> and \<open>0\<close>) are the same key.
\<close>

fun dict_key :: "json \<Rightarrow> py_error + json" where
  "dict_key (JArr xs) = Inl TypeError"
| "dict_key (JObj kvs) = Inl TypeError"
| "dict_key (JBool b) = Inr (JNum (if b then 1 else 0))"
| "dict_key k = Inr k"

text \<open>\<open>sep.join(xs)\<close>.\<close>

fun join :: "string \<Rightarrow> string list \<Rightarrow> string" where
  "join sep [] = []"
| "join sep [x] = x"
| "join sep (x # y # ys) = x @ sep @ join sep (y # ys)"

text \<open>
  \<open>s.split(sep)[-1]\<close> for a non-empty \<open>sep\<close>: the scan goes left to right over
  non-overlapping occurrences of \<open>sep\<close>; \<open>acc\<close> holds, reversed, the piece being read.
  An empty separator raises \<open>ValueError\<close>.
\<close>

fun split_last_from :: "string \<Rightarrow> string \<Rightarrow> string \<Rightarrow> string" where
  "split_last_from sep acc [] = rev acc"
| "split_last_from sep acc (c # cs) =
     (if sep \<noteq> [] \<and> prefix sep (c # cs)
      then split_last_from sep [] (drop (length sep) (c # cs))
      else split_last_from sep (c # acc) cs)"

definition split_last :: "string \<Rightarrow> string \<Rightarrow> py_error + string" where
  "split_last s sep = (if sep = [] then Inl ValueError else Inr (split_last_from sep [] s))"

section \<open>The HTTP layer and the environment\<close>

datatype param = PStr string | PInt int

record request =
  url :: string
  headers :: "(string \<times> string) list"
  query :: "(string \<times> param) list"

text \<open>
  A response: its status code, its text and what \<open>response.json()\<close> gives
  (\<open>None\<close> when the text is not JSON and the call raises).
\<close>

record response =
  status_code :: nat
  body_text :: string
  json_body :: "json option"

datatype http_outcome = Raised | Returned response

text \<open>Error-level log records; info-level records carry no behaviour and are left out.\<close>

datatype log_entry =
    ApiResponseContent string
  | ApiRequestFailed py_error
  | ErrorFetchingPosts py_error
  | ErrorProcessingPost string py_error

text \<open>
  The world outside the client. \<open>net n r\<close> is what the upstream answers to request \<open>r\<close>
  when \<open>n\<close> requests were sent before it; \<open>sent\<close> is the list of the requests made,
  \<open>sleeps\<close> the list of the \<open>time.sleep\<close> calls, \<open>clock\<close> what \<open>time.time()\<close> reads,
  \<open>errlog\<close> the error log.
\<close>

record world =
  net :: "nat \<Rightarrow> request \<Rightarrow> http_outcome"
  sent :: "request list"
  sleeps :: "real list"
  clock :: real
  errlog :: "log_entry list"

definition log_error :: "log_entry \<Rightarrow> world \<Rightarrow> world" where
  "log_error e w = w\<lparr>errlog := errlog w @ [e]\<rparr>"

text \<open>\<open>time.sleep(d)\<close>: a negative length raises \<open>ValueError\<close>.\<close>

definition time_sleep :: "real \<Rightarrow> world \<Rightarrow> py_error + world" where
  "time_sleep d w =
     (if d < 0 then Inl ValueError
      else Inr (w\<lparr>sleeps := sleeps w @ [d], clock := clock w + d\<rparr>))"

text \<open>\<open>Response.raise_for_status\<close> of the requests library: statuses 400 to 599 raise.\<close>

definition raise_for_status :: "response \<Rightarrow> py_error + unit" where
  "raise_for_status r =
     (if 400 \<le> status_code r \<and> status_code r < 600 then Inl (HTTPError (status_code r))
      else Inr ())"

section \<open>ThreadsAPIClient\<close>

type_synonym insights = "(json \<times> json) list"

record cache_entry =
  data :: insights
  timestamp :: real

record client =
  base_url :: string
  client_headers :: "(string \<times> string) list"
  batch_size :: int
  insights_batch_size :: nat
  api_delay :: real
  basic_fields :: "string list"
  metrics :: "string list"
  insights_cache :: "(string \<times> cache_entry) list"
  cache_duration :: real

text \<open>The settings of \<open>__init__\<close>, for a bearer token \<open>token\<close>.\<close>

definition new_client :: "string \<Rightarrow> client" where
  "new_client token =
     \<lparr>base_url = ''https://graph.threads.net/v1.0'',
      client_headers = [(''Authorization'', ''Bearer '' @ token),
                        (''Content-Type'', ''application/json'')],
      batch_size = 100,
      insights_batch_size = 10,
      api_delay = 0.5,
      basic_fields = [''id'', ''shortcode'', ''timestamp'', ''text'', ''is_quote_post'',
                      ''media_type'', ''permalink''],
      metrics = [''views'', ''likes'', ''replies'', ''reposts'', ''quotes'', ''shares''],
      insights_cache = [],
      cache_duration = 3600\<rparr>"

subsection \<open>\<open>_make_api_request\<close>\<close>

definition api_request :: "client \<Rightarrow> string \<Rightarrow> (string \<times> param) list \<Rightarrow> request" where
  "api_request self endpoint params =
     \<lparr>url = base_url self @ ''/'' @ endpoint, headers = client_headers self, query = params\<rparr>"

text \<open>
  The request is sent; a transport failure or a status rejected by \<open>raise_for_status\<close>
  is logged by the handler and raised again. The sleep stands after \<open>raise_for_status\<close>
  inside the \<open>try\<close>; a \<open>ValueError\<close> of the sleep is no \<open>RequestException\<close> and passes
  the handler unlogged.
\<close>

definition make_api_request ::
  "client \<Rightarrow> string \<Rightarrow> (string \<times> param) list \<Rightarrow> world \<Rightarrow> (py_error + response) \<times> world" where
  "make_api_request self endpoint params w =
     (let req = api_request self endpoint params;
          w1 = w\<lparr>sent := sent w @ [req]\<rparr>
      in case net w (length (sent w)) req of
           Raised \<Rightarrow> (Inl RequestException, log_error (ApiRequestFailed RequestException) w1)
         | Returned resp \<Rightarrow>
             (let w2 = (if status_code resp \<noteq> 200
                        then log_error (ApiResponseContent (body_text resp)) w1 else w1)
              in case raise_for_status resp of
                   Inl e \<Rightarrow> (Inl e, log_error (ApiRequestFailed e) w2)
                 | Inr u \<Rightarrow>
                     (case time_sleep (api_delay self) w2 of
                        Inl e \<Rightarrow> (Inl e, w2)
                      | Inr w3 \<Rightarrow> (Inr resp, w3))))"

subsection \<open>\<open>get_user_posts\<close>\<close>

text \<open>
  The value of \<open>data.get("paging", {}).get("next")\<close> and what the loop makes of it: a
  falsy value ends the loop (the empty endpoint stands for it), a non-empty string is cut
  at the base URL, and any other truthy value has no \<open>split\<close>.
\<close>

definition next_link :: "client \<Rightarrow> json \<Rightarrow> py_error + string" where
  "next_link self d =
     ebind (dict_get d ''paging'' (JObj [])) (\<lambda>paging.
     ebind (dict_get paging ''next'' JNull) (\<lambda>nxt.
       if truthy nxt
       then (case nxt of JStr s \<Rightarrow> split_last s (base_url self @ ''/'')
                       | _ \<Rightarrow> Inl AttributeError)
       else Inr []))"

definition page_params :: "client \<Rightarrow> int \<Rightarrow> string option \<Rightarrow> (string \<times> param) list" where
  "page_params self current_batch since =
     [(''fields'', PStr (join '','' (basic_fields self))), (''limit'', PInt current_batch)] @
     (case since of
        None \<Rightarrow> []
      | Some s \<Rightarrow> if s \<noteq> [] then [(''since'', PStr s)] else [])"

definition current_batch_of :: "client \<Rightarrow> int \<Rightarrow> bool \<Rightarrow> json list \<Rightarrow> int" where
  "current_batch_of self limit is_test_mode all_posts =
     (if is_test_mode then min (limit - int (length all_posts)) (batch_size self)
      else batch_size self)"

text \<open>
  The body of the \<open>try\<close> in one turn of the loop. The result is the exception raised,
  or \<open>None\<close> for \<open>break\<close>, or the next endpoint; with it come \<open>all_posts\<close> and
  the world as they are at that point.
\<close>

definition fetch_page ::
  "client \<Rightarrow> int \<Rightarrow> bool \<Rightarrow> string option \<Rightarrow> string \<Rightarrow> json list \<Rightarrow> world
     \<Rightarrow> (py_error + string option) \<times> json list \<times> world" where
  "fetch_page self limit is_test_mode since next_page all_posts w =
     (if is_test_mode \<and> limit \<le> int (length all_posts) then (Inr None, all_posts, w)
      else
        case make_api_request self next_page
               (page_params self (current_batch_of self limit is_test_mode all_posts) since) w of
          (Inl e, w1) \<Rightarrow> (Inl e, all_posts, w1)
        | (Inr resp, w1) \<Rightarrow>
            (case json_body resp of
               None \<Rightarrow> (Inl JSONDecodeError, all_posts, w1)
             | Some d \<Rightarrow>
                 (case ebind (dict_get d ''data'' (JArr [])) iterate of
                    Inl e \<Rightarrow> (Inl e, all_posts, w1)
                  | Inr posts \<Rightarrow>
                      (case next_link self d of
                         Inl e \<Rightarrow> (Inl e, all_posts @ posts, w1)
                       | Inr np \<Rightarrow> (Inr (Some np), all_posts @ posts, w1)))))"

text \<open>
  The \<open>while next_page:\<close> loop. The upstream may hand out next links for ever, so the
  loop is a partial function: \<open>None\<close> is a run that does not return.
\<close>

partial_function (option) posts_loop ::
  "client \<Rightarrow> int \<Rightarrow> bool \<Rightarrow> string option \<Rightarrow> string \<Rightarrow> json list \<Rightarrow> world
     \<Rightarrow> (json list \<times> world) option" where
  "posts_loop self limit is_test_mode since next_page all_posts w =
     (if next_page = [] then Some (all_posts, w)
      else
        case fetch_page self limit is_test_mode since next_page all_posts w of
          (Inl e, all_posts', w') \<Rightarrow> Some (all_posts', log_error (ErrorFetchingPosts e) w')
        | (Inr None, all_posts', w') \<Rightarrow> Some (all_posts', w')
        | (Inr (Some np), all_posts', w') \<Rightarrow>
            posts_loop self limit is_test_mode since np all_posts' w')"


text \<open>
  \<open>paged self limit is_test_mode since s s'\<close>: the loop, entered in state \<open>s\<close> (endpoint,
  posts collected, world), comes to state \<open>s'\<close> after some turns that all fell through
  to the next turn.
\<close>

inductive paged ::
  "client \<Rightarrow> int \<Rightarrow> bool \<Rightarrow> string option \<Rightarrow> string \<times> json list \<times> world
     \<Rightarrow> string \<times> json list \<times> world \<Rightarrow> bool"
  for self limit is_test_mode since where
    paged_refl: "paged self limit is_test_mode since s s"
  | paged_step:
      "paged self limit is_test_mode since s (np, all_posts, w) \<Longrightarrow> np \<noteq> [] \<Longrightarrow>
       fetch_page self limit is_test_mode since np all_posts w = (Inr (Some np'), all_posts', w') \<Longrightarrow>
       paged self limit is_test_mode since s (np', all_posts', w')"

subsection \<open>The insights cache\<close>

text \<open>\<open>_should_update_cache\<close>; nothing in the client calls it.\<close>

definition should_update_cache :: "client \<Rightarrow> string \<Rightarrow> world \<Rightarrow> bool" where
  "should_update_cache self post_id w =
     (case map_of (insights_cache self) post_id of
        None \<Rightarrow> True
      | Some entry \<Rightarrow> clock w - timestamp entry > cache_duration self)"

definition update_cache :: "client \<Rightarrow> string \<Rightarrow> insights \<Rightarrow> world \<Rightarrow> client" where
  "update_cache self post_id ins w =
     self\<lparr>insights_cache :=
            AList.update post_id \<lparr>data = ins, timestamp = clock w\<rparr> (insights_cache self)\<rparr>"

subsection \<open>\<open>_process_single_insight\<close>\<close>

text \<open>\<open>{metric: 0 for metric in self.metrics}\<close>\<close>

definition zero_insights :: "client \<Rightarrow> insights" where
  "zero_insights self = foldl (\<lambda>d m. AList.update (JStr m) (JNum 0) d) [] (metrics self)"

text \<open>
  One turn of \<open>for metric in data['data']\<close>. In an assignment Python evaluates the right
  side before the subscript of the target.
\<close>

definition read_metric :: "json \<Rightarrow> insights \<Rightarrow> py_error + insights" where
  "read_metric metric ins =
     ebind (dict_get metric ''values'' JNull) (\<lambda>vals.
       if truthy vals
       then ebind (subscript0 vals) (\<lambda>first.
            ebind (dict_get first ''value'' (JNum 0)) (\<lambda>v.
            ebind (subscript metric ''name'') (\<lambda>name.
            ebind (dict_key name) (\<lambda>k. Inr (AList.update k v ins)))))
       else ebind (dict_get metric ''total_value'' JNull) (\<lambda>total.
              if truthy total
              then ebind (dict_get total ''value'' (JNum 0)) (\<lambda>v.
                   ebind (subscript metric ''name'') (\<lambda>name.
                   ebind (dict_key name) (\<lambda>k. Inr (AList.update k v ins))))
              else Inr ins))"

fun read_metrics :: "json list \<Rightarrow> insights \<Rightarrow> py_error + insights" where
  "read_metrics [] ins = Inr ins"
| "read_metrics (metric # rest) ins =
     (case read_metric metric ins of
        Inl e \<Rightarrow> Inl e
      | Inr ins' \<Rightarrow> read_metrics rest ins')"

definition parse_insights :: "client \<Rightarrow> response \<Rightarrow> py_error + insights" where
  "parse_insights self resp =
     (case json_body resp of
        None \<Rightarrow> Inl JSONDecodeError
      | Some d \<Rightarrow>
          if truthy d
          then ebind (contains d ''data'') (\<lambda>has_data.
                 if has_data
                 then ebind (subscript d ''data'') (\<lambda>ms.
                      ebind (iterate ms) (\<lambda>items. read_metrics items (zero_insights self)))
                 else Inr (zero_insights self))
          else Inr (zero_insights self))"

definition insights_request :: "client \<Rightarrow> string \<Rightarrow> request" where
  "insights_request self post_id =
     api_request self (post_id @ ''/insights'') [(''metric'', PStr (join '','' (metrics self)))]"

text \<open>The body of the \<open>try\<close> of \<open>_process_single_insight\<close>.\<close>

definition fetch_insight :: "client \<Rightarrow> string \<Rightarrow> world \<Rightarrow> (py_error + insights) \<times> world" where
  "fetch_insight self post_id w =
     (case make_api_request self (post_id @ ''/insights'')
             [(''metric'', PStr (join '','' (metrics self)))] w of
        (Inl e, w1) \<Rightarrow> (Inl e, w1)
      | (Inr resp, w1) \<Rightarrow> (parse_insights self resp, w1))"

definition process_single_insight ::
  "client \<Rightarrow> string \<Rightarrow> world \<Rightarrow> (string \<times> insights) \<times> world" where
  "process_single_insight self post_id w =
     (case fetch_insight self post_id w of
        (Inr ins, w1) \<Rightarrow> ((post_id, ins), w1)
      | (Inl e, w1) \<Rightarrow> ((post_id, zero_insights self), log_error (ErrorProcessingPost post_id e) w1))"

subsection \<open>\<open>get_post_insights\<close>\<close>

datatype post_ids_arg = Single string | Many "string list"

text \<open>A dict comprehension over a list of pairs, and \<open>dict.update\<close>.\<close>

definition dict_of :: "('k \<times> 'v) list \<Rightarrow> ('k \<times> 'v) list" where
  "dict_of kvs = foldl (\<lambda>d kv. AList.update (fst kv) (snd kv) d) [] kvs"

definition dict_update :: "('k \<times> 'v) list \<Rightarrow> ('k \<times> 'v) list \<Rightarrow> ('k \<times> 'v) list" where
  "dict_update d kvs = foldl (\<lambda>d kv. AList.update (fst kv) (snd kv) d) d kvs"

text \<open>
  The futures of one sub-batch, in the order of submission: each is kept with the post it
  was submitted for, and holds what \<open>future.result()\<close> gives. The workers of a sub-batch
  run in parallel; each one makes its own request and touches nothing but the request
  log, the clock and the error log, so they are run here one after the other in the
  order of submission.
\<close>

fun submit_all ::
  "client \<Rightarrow> string list \<Rightarrow> world \<Rightarrow> (string \<times> (py_error + string \<times> insights)) list \<times> world" where
  "submit_all self [] w = ([], w)"
| "submit_all self (post_id # rest) w =
     (case process_single_insight self post_id w of
        (r, w1) \<Rightarrow> (case submit_all self rest w1 of
                      (fs, w2) \<Rightarrow> ((post_id, Inr r) # fs, w2)))"

text \<open>The loop \<open>for future in future_to_post\<close> that collects the results.\<close>

fun collect_results ::
  "bool \<Rightarrow> (string \<times> (py_error + string \<times> insights)) list
     \<Rightarrow> (string \<times> insights) list \<times> client \<times> world
     \<Rightarrow> (string \<times> insights) list \<times> client \<times> world" where
  "collect_results use_cache [] st = st"
| "collect_results use_cache ((submitted, Inr (post_id, ins)) # fs) (insights_map, self, w) =
     collect_results use_cache fs
       (AList.update post_id ins insights_map,
        (if use_cache then update_cache self post_id ins w else self), w)"
| "collect_results use_cache ((submitted, Inl e) # fs) (insights_map, self, w) =
     collect_results use_cache fs
       (AList.update submitted (zero_insights self) insights_map, self,
        log_error (ErrorProcessingPost submitted e) w)"

text \<open>
  \<open>for i in range(0, len(post_ids), self.insights_batch_size)\<close>, from index \<open>i\<close> on; \<open>n\<close>
  is the sub-batch size, which the loop does not change.
\<close>

function process_batches ::
  "nat \<Rightarrow> bool \<Rightarrow> string list \<Rightarrow> nat \<Rightarrow> (string \<times> insights) list \<times> client \<times> world
     \<Rightarrow> (string \<times> insights) list \<times> client \<times> world" where
  "process_batches n use_cache post_ids i st =
     (if n = 0 \<or> length post_ids \<le> i then st
      else
        case st of (insights_map, self, w) \<Rightarrow>
          (case submit_all self (take n (drop i post_ids)) w of
             (futures, w1) \<Rightarrow>
               process_batches n use_cache post_ids (i + n)
                 (collect_results use_cache futures (insights_map, self, w1))))"
  by pat_completeness auto
termination
  by (relation "measure (\<lambda>(n, use_cache, post_ids, i, st). length post_ids - i)") auto

declare process_batches.simps [simp del]

text \<open>
  The first steps of the call: a single id becomes a list; \<open>cached_posts\<close> is the dict of
  the requested ids that have an entry in the cache (no look at its timestamp); the ids
  left to fetch are those not in \<open>cached_posts\<close>.
\<close>

definition requested :: "post_ids_arg \<Rightarrow> string list" where
  "requested arg = (case arg of Single p \<Rightarrow> [p] | Many ps \<Rightarrow> ps)"

definition cached_posts_of :: "client \<Rightarrow> string list \<Rightarrow> (string \<times> insights) list" where
  "cached_posts_of self post_ids =
     dict_of (List.map_filter
                (\<lambda>p. case map_of (insights_cache self) p of
                       None \<Rightarrow> None
                     | Some entry \<Rightarrow> Some (p, data entry))
                post_ids)"

definition uncached :: "client \<Rightarrow> string list \<Rightarrow> bool \<Rightarrow> string list" where
  "uncached self post_ids use_cache =
     (if use_cache then filter (\<lambda>p. p \<notin> fst ` set (cached_posts_of self post_ids)) post_ids
      else post_ids)"

text \<open>\<open>range\<close> with step 0 raises \<open>ValueError\<close>; the sub-batch size is a natural number.\<close>

definition get_post_insights ::
  "client \<Rightarrow> post_ids_arg \<Rightarrow> bool \<Rightarrow> world
     \<Rightarrow> py_error + (string \<times> insights) list \<times> client \<times> world" where
  "get_post_insights self arg use_cache w =
     (let post_ids = requested arg;
          insights_map =
            (if use_cache then dict_update [] (cached_posts_of self post_ids) else [])
      in if insights_batch_size self = 0 then Inl ValueError
         else Inr (process_batches (insights_batch_size self) use_cache
                     (uncached self post_ids use_cache) 0 (insights_map, self, w)))"

subsection \<open>What a worker makes of the upstream's answer\<close>

text \<open>
  The result of the \<open>try\<close> of \<open>_process_single_insight\<close> as a function of the answer to
  its request, the bundle the worker returns for it, and the bundles for a list of ids
  whose requests are numbered from \<open>n\<close>. \<open>stamp\<close> makes cache entries of bundles.
\<close>

definition answer_insights :: "client \<Rightarrow> http_outcome \<Rightarrow> py_error + insights" where
  "answer_insights self out =
     (case out of
        Raised \<Rightarrow> Inl RequestException
      | Returned r \<Rightarrow>
          (case raise_for_status r of
             Inl e \<Rightarrow> Inl e
           | Inr u \<Rightarrow> if api_delay self < 0 then Inl ValueError else parse_insights self r))"

definition bundle_of :: "client \<Rightarrow> http_outcome \<Rightarrow> insights" where
  "bundle_of self out =
     (case answer_insights self out of Inl e \<Rightarrow> zero_insights self | Inr ins \<Rightarrow> ins)"

fun bundles ::
  "client \<Rightarrow> (nat \<Rightarrow> request \<Rightarrow> http_outcome) \<Rightarrow> nat \<Rightarrow> string list \<Rightarrow> (string \<times> insights) list" where
  "bundles self f n [] = []"
| "bundles self f n (p # ps) =
     (p, bundle_of self (f n (insights_request self p))) # bundles self f (Suc n) ps"

definition stamp :: "real \<Rightarrow> (string \<times> insights) list \<Rightarrow> (string \<times> cache_entry) list" where
  "stamp t kvs = map (\<lambda>kv. (fst kv, \<lparr>data = snd kv, timestamp = t\<rparr>)) kvs"

section \<open>CryptoManager\<close>

text \<open>
  The module has one exception class, \<open>CryptoError\<close>, told apart by its message only. The
  messages are kept in structured form; a handler that formats the exception it caught
  into its own message keeps that exception as the argument.
\<close>

datatype exn = Py py_error | CryptoError crypto_msg
and crypto_msg =
    CredentialsFileNotFound
  | InvalidKeyOrCorruptedData
  | DecryptionFailed exn
  | EncryptionFailed exn
  | CredentialMissing string
  | CredentialLookupFailed string exn

subsection \<open>Files\<close>

type_synonym path = "string list"

datatype os_call = Mkdir path | Chmod path | WriteBytes path | ReadBytes path

text \<open>
  The part of the operating system the manager touches: regular files with their
  content, directories, permission bits, whether \<open>os.name\<close> differs from \<open>'nt'\<close>, the calls
  the system refuses for reasons of its own, and the randomness and time that Fernet
  draws for a token.
\<close>

record os_state =
  files :: "path \<Rightarrow> string option"
  dirs :: "path set"
  modes :: "path \<Rightarrow> nat option"
  posix :: bool
  faults :: "os_call \<Rightarrow> bool"
  entropy :: nat


definition path_exists :: "os_state \<Rightarrow> path \<Rightarrow> bool" where
  "path_exists os p = (files os p \<noteq> None \<or> p \<in> dirs os)"




definition read_bytes :: "path \<Rightarrow> os_state \<Rightarrow> py_error + string" where
  "read_bytes p os =
     (if faults os (ReadBytes p) then Inl OSError
      else case files os p of None \<Rightarrow> Inl OSError | Some d \<Rightarrow> Inr d)"

subsection \<open>The libraries\<close>

text \<open>
  A \<open>Fernet\<close> object, made from one key: \<open>encrypt\<close> seals a plaintext with the randomness
  and time it is given, \<open>decrypt\<close> opens a token or rejects it (\<open>None\<close>: \<open>InvalidToken\<close>).
  \<open>json.dumps\<close>, \<open>json.loads\<close>, \<open>str.encode\<close> and \<open>bytes.decode\<close> come with the
  interpreter (\<open>None\<close>: the call raises). None of them is code of this program; the
  manager is modelled over any such functions.
\<close>

record fernet =
  encrypt :: "nat \<Rightarrow> string \<Rightarrow> string"
  decrypt :: "string \<Rightarrow> string option"

record pylib =
  json_dumps :: "json \<Rightarrow> string"
  json_loads :: "string \<Rightarrow> json option"
  str_encode :: "string \<Rightarrow> string"
  bytes_decode :: "string \<Rightarrow> string option"

record crypto_manager =
  the_fernet :: fernet
  credentials_path :: path

definition or_raise :: "py_error \<Rightarrow> 'a option \<Rightarrow> exn + 'a" where
  "or_raise e x = (case x of None \<Rightarrow> Inl (Py e) | Some v \<Rightarrow> Inr v)"

definition lift_py :: "py_error + 'a \<Rightarrow> exn + 'a" where
  "lift_py r = (case r of Inl e \<Rightarrow> Inl (Py e) | Inr v \<Rightarrow> Inr v)"

subsection \<open>\<open>encrypt_credentials\<close>\<close>



subsection \<open>\<open>load_credentials\<close>\<close>

definition load_credentials_body :: "pylib \<Rightarrow> crypto_manager \<Rightarrow> os_state \<Rightarrow> exn + json" where
  "load_credentials_body lib self os =
     (if \<not> path_exists os (credentials_path self) then Inl (CryptoError CredentialsFileNotFound)
      else
        ebind (lift_py (read_bytes (credentials_path self) os)) (\<lambda>encrypted_data.
        ebind (or_raise InvalidToken (decrypt (the_fernet self) encrypted_data)) (\<lambda>plain.
        ebind (or_raise UnicodeDecodeError (bytes_decode lib plain)) (\<lambda>json_data.
          or_raise JSONDecodeError (json_loads lib json_data)))))"

text \<open>
  The two handlers: \<open>except InvalidToken\<close> first, then \<open>except Exception\<close>, which also
  catches the \<open>CryptoError\<close> raised inside the \<open>try\<close> for a missing file.
\<close>

definition load_credentials :: "pylib \<Rightarrow> crypto_manager \<Rightarrow> os_state \<Rightarrow> exn + json" where
  "load_credentials lib self os =
     (case load_credentials_body lib self os of
        Inl (Py InvalidToken) \<Rightarrow> Inl (CryptoError InvalidKeyOrCorruptedData)
      | Inl e \<Rightarrow> Inl (CryptoError (DecryptionFailed e))
      | Inr credentials \<Rightarrow> Inr credentials)"

subsection \<open>\<open>get_single_credential\<close>\<close>

definition get_single_credential_body ::
  "pylib \<Rightarrow> crypto_manager \<Rightarrow> string \<Rightarrow> os_state \<Rightarrow> exn + json" where
  "get_single_credential_body lib self key os =
     ebind (load_credentials lib self os) (\<lambda>creds.
     ebind (lift_py (contains creds key)) (\<lambda>present.
       if \<not> present then Inl (CryptoError (CredentialMissing key))
       else lift_py (subscript creds key)))"

definition get_single_credential ::
  "pylib \<Rightarrow> crypto_manager \<Rightarrow> string \<Rightarrow> os_state \<Rightarrow> exn + json" where
  "get_single_credential lib self key os =
     (case get_single_credential_body lib self key os of
        Inl e \<Rightarrow> Inl (CryptoError (CredentialLookupFailed key e))
      | Inr v \<Rightarrow> Inr v)"

section \<open>Examples\<close>

text \<open>A world in which nothing has happened yet, and an upstream that always answers the same.\<close>

definition quiet_world :: "(nat \<Rightarrow> request \<Rightarrow> http_outcome) \<Rightarrow> world" where
  "quiet_world f = \<lparr>net = f, sent = [], sleeps = [], clock = 0, errlog = []\<rparr>"

definition plain_response :: "nat \<Rightarrow> json option \<Rightarrow> response" where
  "plain_response code body = \<lparr>status_code = code, body_text = [], json_body = body\<rparr>"

definition always :: "http_outcome \<Rightarrow> nat \<Rightarrow> request \<Rightarrow> http_outcome" where
  "always out n r = out"

text \<open>
  A client whose cache holds one entry for post \<open>a\<close>, stamped at time 0, and a world
  whose clock reads 7200, twice the cache duration.
\<close>

definition stale_client :: client where
  "stale_client =
     (new_client ''t'')\<lparr>insights_cache :=
        [(''a'', \<lparr>data = [(JStr ''views'', JNum 5)], timestamp = 0\<rparr>)]\<rparr>"

definition late_world :: world where
  "late_world = (quiet_world (always Raised))\<lparr>clock := 7200\<rparr>"

text \<open>
  An upstream that knows the posts \<open>a\<close> and \<open>c\<close> and times out on everything else
  (the end-to-end example of the specification).
\<close>

definition metric_values :: "string \<Rightarrow> real \<Rightarrow> json" where
  "metric_values name v = JObj [(''name'', JStr name), (''values'', JArr [JObj [(''value'', JNum v)]])]"

definition views_likes :: "real \<Rightarrow> real \<Rightarrow> http_outcome" where
  "views_likes v l =
     Returned (plain_response 200
       (Some (JObj [(''data'', JArr [metric_values ''views'' v, metric_values ''likes'' l])])))"

definition abc_upstream :: "nat \<Rightarrow> request \<Rightarrow> http_outcome" where
  "abc_upstream n r =
     (if url r = ''https://graph.threads.net/v1.0/a/insights'' then views_likes 100 10
      else if url r = ''https://graph.threads.net/v1.0/c/insights'' then views_likes 50 5
      else Raised)"





text \<open>
  Stand-ins for the libraries: a cipher that tags the plaintext with its key, a JSON
  codec that knows one document, and a file system with and without a sealed blob.
\<close>

definition toy_fernet :: "string \<Rightarrow> fernet" where
  "toy_fernet key =
     \<lparr>encrypt = (\<lambda>n p. key @ p),
      decrypt = (\<lambda>t. if prefix key t then Some (drop (length key) t) else None)\<rparr>"

definition toy_creds :: json where
  "toy_creds = JObj [(''threads_token'', JStr ''abc'')]"

definition toy_lib :: pylib where
  "toy_lib =
     \<lparr>json_dumps = (\<lambda>j. if j = toy_creds then ''threads_token=abc'' else ''null''),
      json_loads = (\<lambda>s. if s = ''threads_token=abc'' then Some toy_creds else None),
      str_encode = (\<lambda>s. s),
      bytes_decode = Some\<rparr>"

definition toy_manager :: crypto_manager where
  "toy_manager = \<lparr>the_fernet = toy_fernet ''k1'', credentials_path = [''config'', ''credentials.enc'']\<rparr>"

definition fresh_os :: os_state where
  "fresh_os =
     \<lparr>files = (\<lambda>p. None), dirs = {[]}, modes = (\<lambda>p. None), posix = True,
      faults = (\<lambda>c. False), entropy = 0\<rparr>"

definition sealed_os :: "string \<Rightarrow> os_state" where
  "sealed_os blob =
     \<lparr>files = [[''config'', ''credentials.enc''] \<mapsto> blob],
      dirs = {[], [''config'']},
      modes = [[''config''] \<mapsto> 448, [''config'', ''credentials.enc''] \<mapsto> 384],
      posix = True, faults = (\<lambda>c. False), entropy = 1\<rparr>"




section \<open>Properties of the client\<close>

subsection \<open>Requests\<close>

lemma make_api_request_net: "net (snd (make_api_request self ep ps w)) = net w"
  by (simp add: make_api_request_def Let_def log_error_def time_sleep_def
      split: http_outcome.splits sum.splits)

lemma make_api_request_sent:
  "sent (snd (make_api_request self ep ps w)) = sent w @ [api_request self ep ps]"
  by (simp add: make_api_request_def Let_def log_error_def time_sleep_def
      split: http_outcome.splits sum.splits)

lemma make_api_request_fst:
  "fst (make_api_request self ep ps w) =
     (case net w (length (sent w)) (api_request self ep ps) of
        Raised \<Rightarrow> Inl RequestException
      | Returned r \<Rightarrow>
          (case raise_for_status r of
             Inl e \<Rightarrow> Inl e
           | Inr u \<Rightarrow> if api_delay self < 0 then Inl ValueError else Inr r))"
  by (simp add: make_api_request_def Let_def log_error_def time_sleep_def
      split: http_outcome.splits sum.splits)

text \<open>
  C6, as the code has it. A transport failure or a status from 400 to 599 makes
  \<open>_make_api_request\<close> raise (the HTTP error carries the status) and no sleep is done;
  any other answer is returned after one sleep of the fixed delay. The sleep follows a
  successful request only.
\<close>

theorem make_api_request_outcome:
  "make_api_request self endpoint params w = (res, w') \<Longrightarrow>
     sent w' = sent w @ [api_request self endpoint params] \<and>
     (case net w (length (sent w)) (api_request self endpoint params) of
        Raised \<Rightarrow> res = Inl RequestException \<and> sleeps w' = sleeps w
      | Returned r \<Rightarrow>
          if 400 \<le> status_code r \<and> status_code r < 600
          then res = Inl (HTTPError (status_code r)) \<and> sleeps w' = sleeps w
          else if api_delay self < 0 then res = Inl ValueError \<and> sleeps w' = sleeps w
          else res = Inr r \<and> sleeps w' = sleeps w @ [api_delay self])"
  by (auto simp: make_api_request_def Let_def log_error_def raise_for_status_def time_sleep_def
      split: http_outcome.splits if_splits sum.splits)

theorem make_api_request_outcome_witness:
  "fst (make_api_request (new_client ''t'') ''me/threads'' []
          (quiet_world (always (Returned (plain_response 200 None))))) =
     Inr (plain_response 200 None) \<and>
   sleeps (snd (make_api_request (new_client ''t'') ''me/threads'' []
          (quiet_world (always (Returned (plain_response 200 None)))))) = [0.5]"
  using make_api_request_outcome [OF surjective_pairing,
      of "new_client ''t''" "''me/threads''" "[]"
         "quiet_world (always (Returned (plain_response 200 None)))"]
  by (simp add: quiet_world_def plain_response_def new_client_def always_def)

text \<open>
  C6 as stated fails: on a 500 answer the error is raised and no sleep is done, and a
  304 answer, which is not 2xx, raises nothing.
\<close>

theorem make_api_request_failure_skips_sleep:
  "fst (make_api_request (new_client ''t'') ''me/threads'' []
          (quiet_world (always (Returned (plain_response 500 None))))) = Inl (HTTPError 500) \<and>
   sleeps (snd (make_api_request (new_client ''t'') ''me/threads'' []
          (quiet_world (always (Returned (plain_response 500 None)))))) = [] \<and>
   fst (make_api_request (new_client ''t'') ''me/threads'' []
          (quiet_world (always (Returned (plain_response 304 None))))) =
     Inr (plain_response 304 None)"
  by (simp add: make_api_request_def Let_def log_error_def raise_for_status_def time_sleep_def
      quiet_world_def plain_response_def new_client_def api_request_def always_def)

subsection \<open>Workers and sub-batches\<close>

lemma process_single_insight_fst:
  "fst (process_single_insight self p w) =
     (p, bundle_of self (net w (length (sent w)) (insights_request self p)))"
  using make_api_request_fst [of self "p @ ''/insights''" "[(''metric'', PStr (join '','' (metrics self)))]" w]
  by (auto simp: process_single_insight_def fetch_insight_def bundle_of_def answer_insights_def
      insights_request_def split: prod.splits sum.splits http_outcome.splits if_splits)

lemma process_single_insight_net: "net (snd (process_single_insight self p w)) = net w"
  using make_api_request_net [of self "p @ ''/insights''" "[(''metric'', PStr (join '','' (metrics self)))]" w]
  by (auto simp: process_single_insight_def fetch_insight_def log_error_def
      split: prod.splits sum.splits)

lemma process_single_insight_sent:
  "sent (snd (process_single_insight self p w)) = sent w @ [insights_request self p]"
  using make_api_request_sent [of self "p @ ''/insights''" "[(''metric'', PStr (join '','' (metrics self)))]" w]
  by (auto simp: process_single_insight_def fetch_insight_def log_error_def insights_request_def
      split: prod.splits sum.splits)

lemma submit_all_net: "net (snd (submit_all self ps w)) = net w"
proof (induction ps arbitrary: w)
  case Nil
  show ?case by simp
next
  case (Cons p ps)
  obtain r w1 where r: "process_single_insight self p w = (r, w1)" by (cases "process_single_insight self p w")
  then have "net w1 = net w" using process_single_insight_net [of self p w] by simp
  with Cons [of w1] r show ?case by (auto split: prod.splits)
qed

lemma submit_all_sent:
  "sent (snd (submit_all self ps w)) = sent w @ map (insights_request self) ps"
proof (induction ps arbitrary: w)
  case Nil
  show ?case by simp
next
  case (Cons p ps)
  obtain r w1 where r: "process_single_insight self p w = (r, w1)" by (cases "process_single_insight self p w")
  then have "sent w1 = sent w @ [insights_request self p]"
    using process_single_insight_sent [of self p w] by simp
  with Cons [of w1] r show ?case by (auto split: prod.splits)
qed

lemma submit_all_fst:
  "fst (submit_all self ps w) =
     map (\<lambda>kv. (fst kv, Inr kv)) (bundles self (net w) (length (sent w)) ps)"
proof (induction ps arbitrary: w)
  case Nil
  show ?case by simp
next
  case (Cons p ps)
  obtain r w1 where r: "process_single_insight self p w = (r, w1)" by (cases "process_single_insight self p w")
  have r1: "r = (p, bundle_of self (net w (length (sent w)) (insights_request self p)))"
    using process_single_insight_fst [of self p w] r by simp
  have "net w1 = net w" using process_single_insight_net [of self p w] r by simp
  moreover have "length (sent w1) = Suc (length (sent w))"
    using process_single_insight_sent [of self p w] r by simp
  ultimately show ?case using Cons [of w1] r r1 by (auto split: prod.splits)
qed


lemma dict_update_Nil: "dict_update d [] = d"
  by (simp add: dict_update_def)

lemma dict_update_Cons: "dict_update d (kv # kvs) = dict_update (AList.update (fst kv) (snd kv) d) kvs"
  by (simp add: dict_update_def)

lemma dict_update_append: "dict_update d (xs @ ys) = dict_update (dict_update d xs) ys"
  by (simp add: dict_update_def)

lemma collect_results_all_returned:
  "collect_results uc (map (\<lambda>kv. (fst kv, Inr kv)) kvs) (m, self, w) =
     (dict_update m kvs,
      (if uc then self\<lparr>insights_cache := dict_update (insights_cache self) (stamp (clock w) kvs)\<rparr>
       else self),
      w)"
proof (induction kvs arbitrary: m self)
  case Nil
  show ?case by (simp add: dict_update_Nil stamp_def)
next
  case (Cons kv kvs)
  obtain p ins where kv: "kv = (p, ins)" by (cases kv)
  show ?case
    by (simp add: kv Cons dict_update_Cons stamp_def update_cache_def)
qed

lemma insights_request_cache: "insights_request (self\<lparr>insights_cache := c\<rparr>) p = insights_request self p"
  by (simp add: insights_request_def api_request_def)

lemma zero_insights_cache: "zero_insights (self\<lparr>insights_cache := c\<rparr>) = zero_insights self"
  by (simp add: zero_insights_def)

lemma parse_insights_cache: "parse_insights (self\<lparr>insights_cache := c\<rparr>) r = parse_insights self r"
  by (simp add: parse_insights_def zero_insights_cache cong: option.case_cong if_cong)

lemma answer_insights_cache: "answer_insights (self\<lparr>insights_cache := c\<rparr>) out = answer_insights self out"
  by (simp add: answer_insights_def parse_insights_cache split: http_outcome.splits sum.splits)

lemma bundle_of_cache: "bundle_of (self\<lparr>insights_cache := c\<rparr>) out = bundle_of self out"
  by (simp add: bundle_of_def answer_insights_cache zero_insights_cache cong: sum.case_cong)

lemma bundles_cache: "bundles (self\<lparr>insights_cache := c\<rparr>) f n ps = bundles self f n ps"
  by (induction ps arbitrary: n) (simp_all add: insights_request_cache bundle_of_cache)

lemma bundles_append:
  "bundles self f n (xs @ ys) = bundles self f n xs @ bundles self f (n + length xs) ys"
  by (induction xs arbitrary: n) simp_all

lemma keys_bundles: "map fst (bundles self f n ps) = ps"
  by (induction ps arbitrary: n) simp_all

lemma process_batches_result:
  "0 < n \<Longrightarrow>
   \<exists>c w'. process_batches n uc ids i (m, self, w) =
            (dict_update m (bundles self (net w) (length (sent w)) (drop i ids)),
             self\<lparr>insights_cache := c\<rparr>, w') \<and>
          (\<not> uc \<longrightarrow> c = insights_cache self) \<and>
          net w' = net w \<and>
          sent w' = sent w @ map (insights_request self) (drop i ids)"
proof (induction n uc ids i "(m, self, w)" arbitrary: m self w rule: process_batches.induct)
  case (1 n uc ids i)
  show ?case
  proof (cases "length ids \<le> i")
    case True
    have eq: "process_batches n uc ids i (m, self, w) = (m, self\<lparr>insights_cache := insights_cache self\<rparr>, w)"
      using True by (subst process_batches.simps) simp
    show ?thesis
      unfolding eq using True by (intro exI [of _ "insights_cache self"] exI [of _ w]) (simp add: dict_update_Nil)
  next
    case False
    define B where "B = take n (drop i ids)"
    define kB where "kB = bundles self (net w) (length (sent w)) B"
    define w1 where "w1 = snd (submit_all self B w)"
    define c1 where "c1 =
      (if uc then dict_update (insights_cache self) (stamp (clock w1) kB) else insights_cache self)"
    define self1 where "self1 = self\<lparr>insights_cache := c1\<rparr>"
    have sub: "submit_all self B w = (map (\<lambda>kv. (fst kv, Inr kv)) kB, w1)"
      using submit_all_fst [of self B w] by (simp add: kB_def w1_def prod_eq_iff)
    have col: "collect_results uc (map (\<lambda>kv. (fst kv, Inr kv)) kB) (m, self, w1) =
                 (dict_update m kB, self1, w1)"
      by (simp add: collect_results_all_returned self1_def c1_def)
    have unf: "process_batches n uc ids i (m, self, w) =
                 process_batches n uc ids (i + n) (dict_update m kB, self1, w1)"
      using False "1.prems" sub col
      by (subst process_batches.simps) (simp add: B_def)
    have "\<exists>c w'. process_batches n uc ids (i + n) (dict_update m kB, self1, w1) =
            (dict_update (dict_update m kB)
               (bundles self1 (net w1) (length (sent w1)) (drop (i + n) ids)),
             self1\<lparr>insights_cache := c\<rparr>, w') \<and>
          (\<not> uc \<longrightarrow> c = insights_cache self1) \<and>
          net w' = net w1 \<and>
          sent w' = sent w1 @ map (insights_request self1) (drop (i + n) ids)"
      using "1.hyps" [of m "(self, w)" self w "map (\<lambda>kv. (fst kv, Inr kv)) kB" w1 "dict_update m kB" self1 w1]
        False "1.prems" sub col
      by (simp add: B_def)
    then obtain c2 w2 where
      r: "process_batches n uc ids (i + n) (dict_update m kB, self1, w1) =
            (dict_update (dict_update m kB)
               (bundles self1 (net w1) (length (sent w1)) (drop (i + n) ids)),
             self1\<lparr>insights_cache := c2\<rparr>, w2)"
      and c2: "\<not> uc \<longrightarrow> c2 = insights_cache self1"
      and net2: "net w2 = net w1"
      and sent2: "sent w2 = sent w1 @ map (insights_request self1) (drop (i + n) ids)"
      by blast
    have net1: "net w1 = net w" by (simp add: w1_def submit_all_net)
    have sent1: "sent w1 = sent w @ map (insights_request self) B"
      by (simp add: w1_def submit_all_sent)
    have lenB: "length (sent w1) = length (sent w) + length B" by (simp add: sent1)
    have split: "B @ drop (i + n) ids = drop i ids"
    proof -
      have "take n (drop i ids) @ drop n (drop i ids) = drop i ids"
        by (rule append_take_drop_id)
      then show ?thesis by (simp add: B_def add.commute)
    qed
    have "kB @ bundles self1 (net w1) (length (sent w1)) (drop (i + n) ids) =
            bundles self (net w) (length (sent w)) (B @ drop (i + n) ids)"
      by (simp add: self1_def bundles_cache net1 lenB kB_def bundles_append)
    then have bund: "kB @ bundles self1 (net w1) (length (sent w1)) (drop (i + n) ids) =
            bundles self (net w) (length (sent w)) (drop i ids)"
      by (simp only: split)
    have first: "dict_update (dict_update m kB)
                   (bundles self1 (net w1) (length (sent w1)) (drop (i + n) ids)) =
                 dict_update m (bundles self (net w) (length (sent w)) (drop i ids))"
      by (simp only: bund flip: dict_update_append)
    have "sent w2 = sent w @ map (insights_request self) (B @ drop (i + n) ids)"
      by (simp add: sent2 sent1 self1_def insights_request_cache)
    then have sents: "sent w2 = sent w @ map (insights_request self) (drop i ids)"
      by (simp only: split)
    have selfs: "self1\<lparr>insights_cache := c2\<rparr> = self\<lparr>insights_cache := c2\<rparr>"
      by (simp add: self1_def)
    have unch: "\<not> uc \<longrightarrow> c2 = insights_cache self"
      using c2 by (simp add: self1_def c1_def)
    have "process_batches n uc ids i (m, self, w) =
            (dict_update m (bundles self (net w) (length (sent w)) (drop i ids)),
             self\<lparr>insights_cache := c2\<rparr>, w2)"
      by (simp only: unf r first selfs)
    with unch net2 net1 sents show ?thesis by auto
  qed
qed

subsection \<open>Dicts and the result of \<open>get_post_insights\<close>\<close>

lemma keys_dict_update:
  "fst ` set (dict_update d kvs) = fst ` set d \<union> fst ` set kvs"
proof (induction kvs arbitrary: d)
  case Nil
  show ?case by (simp add: dict_update_Nil)
next
  case (Cons kv kvs)
  have "fst ` set (AList.update (fst kv) (snd kv) d) = {fst kv} \<union> fst ` set d"
    by (rule dom_update)
  then show ?case by (auto simp: dict_update_Cons Cons)
qed

lemma distinct_dict_update:
  "distinct (map fst d) \<Longrightarrow> distinct (map fst (dict_update d kvs))"
  by (induction kvs arbitrary: d) (simp_all add: dict_update_Nil dict_update_Cons distinct_update)

lemma map_of_dict_update: "map_of (dict_update d kvs) = map_of d ++ map_of (rev kvs)"
  by (induction kvs arbitrary: d) (simp_all add: dict_update_Nil dict_update_Cons update_conv')

lemma dict_of_eq: "dict_of kvs = dict_update [] kvs"
  by (simp add: dict_of_def dict_update_def)

lemma map_of_dict_update_last:
  assumes "j < length kvs" and "fst (kvs ! j) \<notin> fst ` set (drop (Suc j) kvs)"
  shows "map_of (dict_update d kvs) (fst (kvs ! j)) = Some (snd (kvs ! j))"
proof -
  define T where "T = take j kvs"
  define R where "R = drop (Suc j) kvs"
  have kvs: "kvs = (T @ [kvs ! j]) @ R"
    using id_take_nth_drop [OF assms(1)] by (simp add: T_def R_def)
  have "fst (kvs ! j) \<notin> fst ` set (rev R)" using assms(2) by (simp add: R_def)
  then have none: "map_of (rev R) (fst (kvs ! j)) = None" by (simp add: map_of_eq_None_iff)
  have "dict_update d kvs = dict_update (dict_update d (T @ [kvs ! j])) R"
    by (subst kvs) (rule dict_update_append)
  then have "map_of (dict_update d kvs) (fst (kvs ! j)) =
             map_of (dict_update d (T @ [kvs ! j])) (fst (kvs ! j))"
    by (simp add: map_of_dict_update [of _ R] map_add_def none)
  also have "\<dots> = Some (snd (kvs ! j))"
    by (simp add: dict_update_append dict_update_Cons dict_update_Nil update_conv')
  finally show ?thesis .
qed

lemma bundles_nth:
  "j < length ps \<Longrightarrow>
   bundles self f n ps ! j = (ps ! j, bundle_of self (f (n + j) (insights_request self (ps ! j))))"
proof (induction ps arbitrary: n j)
  case Nil
  then show ?case by simp
next
  case (Cons p ps)
  then show ?case by (cases j) simp_all
qed

lemma length_bundles: "length (bundles self f n ps) = length ps"
  by (induction ps arbitrary: n) simp_all

lemma keys_map_filter_cache:
  "map fst (List.map_filter
              (\<lambda>p. case map_of c p of None \<Rightarrow> None | Some entry \<Rightarrow> Some (p, data entry)) ids) =
   filter (\<lambda>p. p \<in> fst ` set c) ids"
proof (induction ids)
  case Nil
  show ?case by simp
next
  case (Cons p ids)
  show ?case
  proof (cases "map_of c p")
    case None
    then have "p \<notin> fst ` set c" by (simp add: map_of_eq_None_iff)
    with None Cons show ?thesis by simp
  next
    case (Some e)
    then have "p \<in> fst ` set c" by (metis map_of_eq_None_iff option.distinct(1))
    with Some Cons show ?thesis by simp
  qed
qed

lemma keys_cached_posts:
  "fst ` set (cached_posts_of self ids) = {p \<in> set ids. p \<in> fst ` set (insights_cache self)}"
proof -
  have "fst ` set (cached_posts_of self ids) =
        set (map fst (List.map_filter
              (\<lambda>p. case map_of (insights_cache self) p of
                     None \<Rightarrow> None | Some entry \<Rightarrow> Some (p, data entry)) ids))"
    by (simp add: cached_posts_of_def dict_of_eq keys_dict_update)
  then show ?thesis by (simp only: keys_map_filter_cache) auto
qed

lemma distinct_cached_posts: "distinct (map fst (cached_posts_of self ids))"
  by (simp add: cached_posts_of_def dict_of_eq distinct_dict_update)

lemma uncached_eq:
  "uncached self ids uc =
     (if uc then filter (\<lambda>p. p \<notin> fst ` set (insights_cache self)) ids else ids)"
proof -
  have "filter (\<lambda>p. p \<notin> fst ` set (cached_posts_of self ids)) ids =
        filter (\<lambda>p. p \<notin> fst ` set (insights_cache self)) ids"
    using keys_cached_posts [of self ids] by (intro filter_cong) auto
  then show ?thesis by (simp add: uncached_def)
qed

lemma update_fresh: "k \<notin> fst ` set d \<Longrightarrow> AList.update k v d = d @ [(k, v)]"
  by (induction d) auto

lemma dict_update_fresh:
  "distinct (map fst kvs) \<Longrightarrow> fst ` set d \<inter> fst ` set kvs = {} \<Longrightarrow> dict_update d kvs = d @ kvs"
proof (induction kvs arbitrary: d)
  case Nil
  show ?case by (simp add: dict_update_Nil)
next
  case (Cons kv kvs)
  have fresh: "fst kv \<notin> fst ` set d" using Cons.prems(2) by auto
  have "fst ` set (d @ [kv]) \<inter> fst ` set kvs = {}" using Cons.prems by auto
  moreover have "distinct (map fst kvs)" using Cons.prems(1) by simp
  ultimately have "dict_update (d @ [kv]) kvs = (d @ [kv]) @ kvs" by (rule Cons.IH [rotated])
  with fresh show ?case by (simp add: dict_update_Cons update_fresh)
qed

lemma get_post_insights_result:
  assumes "0 < insights_batch_size self"
  shows "\<exists>c w'. get_post_insights self arg uc w =
            Inr (dict_update (if uc then cached_posts_of self (requested arg) else [])
                   (bundles self (net w) (length (sent w)) (uncached self (requested arg) uc)),
                 self\<lparr>insights_cache := c\<rparr>, w') \<and>
          (\<not> uc \<longrightarrow> c = insights_cache self) \<and>
          net w' = net w \<and>
          sent w' = sent w @ map (insights_request self) (uncached self (requested arg) uc)"
proof -
  have init: "(if uc then dict_update [] (cached_posts_of self (requested arg)) else []) =
              (if uc then cached_posts_of self (requested arg) else [])"
    using dict_update_fresh [OF distinct_cached_posts, of "[]" self "requested arg"] by simp
  show ?thesis
    using assms
      process_batches_result [of "insights_batch_size self" uc
        "uncached self (requested arg) uc" 0
        "if uc then cached_posts_of self (requested arg) else []" self w]
    by (simp add: get_post_insights_def Let_def init)
qed

subsection \<open>The batch engine\<close>

lemma fetch_insight_fst:
  "fst (fetch_insight self p w) =
     answer_insights self (net w (length (sent w)) (insights_request self p))"
  using make_api_request_fst [of self "p @ ''/insights''" "[(''metric'', PStr (join '','' (metrics self)))]" w]
  by (auto simp: fetch_insight_def answer_insights_def insights_request_def
      split: prod.splits sum.splits http_outcome.splits if_splits)

lemma map_of_zero_insights_aux:
  "map_of (foldl (\<lambda>d m. AList.update (JStr m) (JNum 0) d) d0 ms) (JStr k) =
     (if k \<in> set ms then Some (JNum 0) else map_of d0 (JStr k))"
  by (induction ms arbitrary: d0) (auto simp: update_conv')

lemma map_of_zero_insights:
  "map_of (zero_insights self) (JStr k) = (if k \<in> set (metrics self) then Some (JNum 0) else None)"
  by (simp add: zero_insights_def map_of_zero_insights_aux)

lemma requested_Many: "requested (Many ps) = ps"
  by (simp add: requested_def)

lemma uncached_False: "uncached self ids False = ids"
  by (simp add: uncached_def)

text \<open>
  The counts as the code makes them. For a list of \<open>N\<close> distinct post ids, of which \<open>K\<close>
  have an entry of any age in the cache (none counts when \<open>use_cache\<close> is off),
  \<open>get_post_insights\<close> returns, makes exactly one request for each of the \<open>N - K\<close> other
  ids and no further request, and the map it returns has exactly one entry for each of
  the \<open>N\<close> requested ids.
\<close>

lemma get_post_insights_counts:
  assumes "distinct post_ids" and "0 < insights_batch_size self"
  shows "\<exists>m self' w'.
           get_post_insights self (Many post_ids) use_cache w = Inr (m, self', w') \<and>
           sent w' = sent w @ map (insights_request self) (uncached self post_ids use_cache) \<and>
           length (sent w') = length (sent w) +
             (length post_ids -
                (if use_cache
                 then length (filter (\<lambda>p. p \<in> fst ` set (insights_cache self)) post_ids)
                 else 0)) \<and>
           distinct (map fst m) \<and> fst ` set m = set post_ids \<and> length m = length post_ids"
proof -
  define H where "H = (if use_cache then cached_posts_of self post_ids else [])"
  define U where "U = uncached self post_ids use_cache"
  define m where "m = dict_update H (bundles self (net w) (length (sent w)) U)"
  have "\<exists>c w'. get_post_insights self (Many post_ids) use_cache w =
                 Inr (m, self\<lparr>insights_cache := c\<rparr>, w') \<and>
               sent w' = sent w @ map (insights_request self) U"
    using get_post_insights_result [OF assms(2), of "Many post_ids" use_cache w]
    unfolding requested_Many H_def U_def m_def by blast
  then obtain c w' where
    r: "get_post_insights self (Many post_ids) use_cache w = Inr (m, self\<lparr>insights_cache := c\<rparr>, w')"
    and s: "sent w' = sent w @ map (insights_request self) U"
    by blast
  have lenU: "length U = length post_ids -
      (if use_cache then length (filter (\<lambda>p. p \<in> fst ` set (insights_cache self)) post_ids) else 0)"
  proof -
    have "length (filter (\<lambda>p. p \<notin> fst ` set (insights_cache self)) post_ids) =
          length post_ids - length (filter (\<lambda>p. p \<in> fst ` set (insights_cache self)) post_ids)"
      using sum_length_filter_compl [of "\<lambda>p. p \<in> fst ` set (insights_cache self)" post_ids]
      by linarith
    then show ?thesis by (simp add: U_def uncached_eq)
  qed
  have dH: "distinct (map fst H)" by (simp add: H_def distinct_cached_posts)
  then have dm: "distinct (map fst m)" by (simp add: m_def distinct_dict_update)
  have "fst ` set (bundles self (net w) (length (sent w)) U) = set U"
    using keys_bundles [of self "net w" "length (sent w)" U] by (metis set_map)
  then have "fst ` set m = fst ` set H \<union> set U" by (simp add: m_def keys_dict_update)
  also have "\<dots> = set post_ids"
    by (auto simp: H_def U_def uncached_eq keys_cached_posts)
  finally have km: "fst ` set m = set post_ids" .
  have c1: "card (set (map fst m)) = length (map fst m)" using dm by (rule distinct_card)
  have c2: "card (set post_ids) = length post_ids" using assms(1) by (rule distinct_card)
  have "set (map fst m) = set post_ids" using km by simp
  with c1 c2 have lm: "length m = length post_ids" by simp
  show ?thesis
    using r s lenU dm km lm by (auto simp: U_def)
qed

text \<open>
  C7. The call returns a map, whatever the fetches do. The entry of an id to fetch is
  decided by the outcome of its own fetch, the request number \<open>j\<close> of the call (for an id
  given twice, of its last fetch): if that fetch raises, the entry is the zero bundle,
  which maps every configured metric to 0 and holds nothing else; if not, it is what that
  fetch returned. No other fetch has a part in it.
\<close>

theorem failed_fetch_zero_filled:
  assumes "0 < insights_batch_size self"
    and "j < length (uncached self post_ids use_cache)"
    and "uncached self post_ids use_cache ! j \<notin>
           set (drop (Suc j) (uncached self post_ids use_cache))"
  shows "\<exists>m self' w'.
           get_post_insights self (Many post_ids) use_cache w = Inr (m, self', w') \<and>
           (\<forall>wj. net wj = net w \<and> length (sent wj) = length (sent w) + j \<longrightarrow>
              map_of m (uncached self post_ids use_cache ! j) =
                Some (case fst (fetch_insight self (uncached self post_ids use_cache ! j) wj) of
                        Inl e \<Rightarrow> zero_insights self
                      | Inr ins \<Rightarrow> ins)) \<and>
           (\<forall>k. map_of (zero_insights self) (JStr k) =
                  (if k \<in> set (metrics self) then Some (JNum 0) else None))"
proof -
  define H where "H = (if use_cache then cached_posts_of self post_ids else [])"
  define U where "U = uncached self post_ids use_cache"
  define B where "B = bundles self (net w) (length (sent w)) U"
  have "\<exists>c w'. get_post_insights self (Many post_ids) use_cache w =
          Inr (dict_update H B, self\<lparr>insights_cache := c\<rparr>, w')"
    using get_post_insights_result [OF assms(1), of "Many post_ids" use_cache w]
    unfolding requested_Many H_def U_def B_def by blast
  then obtain c w' where
    r: "get_post_insights self (Many post_ids) use_cache w =
          Inr (dict_update H B, self\<lparr>insights_cache := c\<rparr>, w')"
    by blast
  have j: "j < length U" using assms(2) by (simp add: U_def)
  have jB: "j < length B" using j by (simp add: B_def length_bundles)
  have Bj: "B ! j = (U ! j, bundle_of self (net w (length (sent w) + j) (insights_request self (U ! j))))"
    using j by (simp add: B_def bundles_nth)
  have "map fst (drop (Suc j) B) = drop (Suc j) U"
    using keys_bundles [of self "net w" "length (sent w)" U] by (simp add: B_def flip: drop_map)
  then have "fst ` set (drop (Suc j) B) = set (drop (Suc j) U)" by (metis set_map)
  then have last: "fst (B ! j) \<notin> fst ` set (drop (Suc j) B)"
    using assms(3) by (simp add: Bj U_def)
  have "map_of (dict_update H B) (fst (B ! j)) = Some (snd (B ! j))"
    using jB last by (rule map_of_dict_update_last)
  then have val: "map_of (dict_update H B) (U ! j) =
      Some (bundle_of self (net w (length (sent w) + j) (insights_request self (U ! j))))"
    by (simp add: Bj)
  have "\<forall>wj. net wj = net w \<and> length (sent wj) = length (sent w) + j \<longrightarrow>
          map_of (dict_update H B) (U ! j) =
            Some (case fst (fetch_insight self (U ! j) wj) of
                    Inl e \<Rightarrow> zero_insights self | Inr ins \<Rightarrow> ins)"
    by (simp add: val fetch_insight_fst bundle_of_def)
  with r show ?thesis by (auto simp: U_def map_of_zero_insights)
qed

text \<open>
  C10. With \<open>use_cache\<close> off the client after the call is the client before it, so the
  cache is not written; every requested id is fetched, in order, whatever the cache
  holds; and with any other cache content the call returns the same map and makes the
  same requests, so the cache is not read.
\<close>

theorem get_post_insights_without_cache:
  assumes "0 < insights_batch_size self"
  shows "\<exists>m w'.
           get_post_insights self arg False w = Inr (m, self, w') \<and>
           sent w' = sent w @ map (insights_request self) (requested arg) \<and>
           (\<forall>c. \<exists>w''. get_post_insights (self\<lparr>insights_cache := c\<rparr>) arg False w =
                          Inr (m, self\<lparr>insights_cache := c\<rparr>, w'') \<and>
                        sent w'' = sent w')"
proof -
  define m where "m = dict_update [] (bundles self (net w) (length (sent w)) (requested arg))"
  obtain c0 w' where
    r: "get_post_insights self arg False w = Inr (m, self\<lparr>insights_cache := c0\<rparr>, w')"
    and c0: "\<not> False \<longrightarrow> c0 = insights_cache self"
    and s: "sent w' = sent w @ map (insights_request self) (requested arg)"
    using get_post_insights_result [OF assms, of arg False w]
    unfolding m_def uncached_False if_False by blast
  have "self\<lparr>insights_cache := c0\<rparr> = self" using c0 by simp
  with r have r': "get_post_insights self arg False w = Inr (m, self, w')" by simp
  have "\<exists>w''. get_post_insights (self\<lparr>insights_cache := c\<rparr>) arg False w =
                 Inr (m, self\<lparr>insights_cache := c\<rparr>, w'') \<and> sent w'' = sent w'" for c
  proof -
    have pos: "0 < insights_batch_size (self\<lparr>insights_cache := c\<rparr>)" using assms by simp
    have "\<exists>w''. get_post_insights (self\<lparr>insights_cache := c\<rparr>) arg False w =
                   Inr (m, self\<lparr>insights_cache := c\<rparr>, w'') \<and>
                 sent w'' = sent w @ map (insights_request self) (requested arg)"
      using get_post_insights_result [OF pos, of arg False w]
      unfolding m_def uncached_def by (auto simp: bundles_cache insights_request_cache)
    with s show ?thesis by auto
  qed
  with r' s show ?thesis by blast
qed

text \<open>
  C1 at a stale entry: the entry of post \<open>a\<close> is older than the cache duration
  (\<open>_should_update_cache\<close> says so), yet the call with \<open>use_cache\<close> on returns the cached
  bundle and leaves the world as it was: no request is made.
\<close>

theorem stale_entry_served_without_fetch:
  "should_update_cache stale_client ''a'' late_world \<and>
   get_post_insights stale_client (Many [''a'']) True late_world =
     Inr ([(''a'', [(JStr ''views'', JNum 5)])], stale_client, late_world)"
  by (simp add: should_update_cache_def stale_client_def late_world_def new_client_def
      quiet_world_def get_post_insights_def Let_def requested_def cached_posts_of_def
      uncached_def dict_of_def dict_update_def process_batches.simps)

text \<open>
  C2 at a stale cache: of the ids \<open>a\<close>, \<open>b\<close>, \<open>c\<close> none has an entry within the cache
  duration (\<open>_should_update_cache\<close> is true of each), so none is a hit and three fetches
  are due; the call returns and has sent two requests, for \<open>b\<close> and \<open>c\<close>: the stale entry
  of \<open>a\<close> is taken for a hit.
\<close>

theorem stale_entries_counted_as_hits:
  "should_update_cache stale_client ''a'' late_world \<and>
   should_update_cache stale_client ''b'' late_world \<and>
   should_update_cache stale_client ''c'' late_world \<and>
   \<not> isl (get_post_insights stale_client (Many [''a'', ''b'', ''c'']) True late_world) \<and>
   sent (snd (snd (projr (get_post_insights stale_client (Many [''a'', ''b'', ''c'']) True
                            late_world)))) =
     [insights_request stale_client ''b'', insights_request stale_client ''c'']"
proof -
  have p: "0 < insights_batch_size stale_client" by (simp add: stale_client_def new_client_def)
  have u: "uncached stale_client [''a'', ''b'', ''c''] True = [''b'', ''c'']"
    by (simp add: uncached_eq stale_client_def)
  have s: "sent late_world = []" by (simp add: late_world_def quiet_world_def)
  have old: "should_update_cache stale_client ''a'' late_world \<and>
             should_update_cache stale_client ''b'' late_world \<and>
             should_update_cache stale_client ''c'' late_world"
    by (simp add: should_update_cache_def stale_client_def late_world_def new_client_def
        quiet_world_def)
  obtain m c w' where
    r: "get_post_insights stale_client (Many [''a'', ''b'', ''c'']) True late_world =
          Inr (m, stale_client\<lparr>insights_cache := c\<rparr>, w')"
    and t: "sent w' = sent late_world @
              map (insights_request stale_client)
                (uncached stale_client (requested (Many [''a'', ''b'', ''c''])) True)"
    using get_post_insights_result [OF p, of "Many [''a'', ''b'', ''c'']" True late_world]
    by blast
  have "sent w' = [insights_request stale_client ''b'', insights_request stale_client ''c'']"
    using t by (simp add: requested_Many u s)
  with r have "\<not> isl (get_post_insights stale_client (Many [''a'', ''b'', ''c'']) True late_world) \<and>
   sent (snd (snd (projr (get_post_insights stale_client (Many [''a'', ''b'', ''c'']) True
                            late_world)))) =
     [insights_request stale_client ''b'', insights_request stale_client ''c'']"
    by simp
  with old show ?thesis by simp
qed

subsection \<open>The batch engine at concrete inputs\<close>

lemma get_post_insights_counts_example:
  "distinct [''a'', ''b'', ''c''] \<and> 0 < insights_batch_size stale_client \<and>
   (\<exists>m self' w'.
      get_post_insights stale_client (Many [''a'', ''b'', ''c'']) True late_world =
        Inr (m, self', w') \<and>
      length (sent w') = 2 \<and> distinct (map fst m) \<and>
      fst ` set m = {''a'', ''b'', ''c''} \<and> length m = 3)"
proof -
  have d: "distinct [''a'', ''b'', ''c'']" by simp
  have p: "0 < insights_batch_size stale_client" by (simp add: stale_client_def new_client_def)
  have k: "length (filter (\<lambda>p. p \<in> fst ` set (insights_cache stale_client)) [''a'', ''b'', ''c'']) = 1"
    by (simp add: stale_client_def)
  have s: "length (sent late_world) = 0" by (simp add: late_world_def quiet_world_def)
  have n: "length [''a'', ''b'', ''c''] = 3" by simp
  have e: "set [''a'', ''b'', ''c''] = {''a'', ''b'', ''c''}" by simp
  have a: "0 + (3 - (if True then 1 else 0)) = (2::nat)" by simp
  have "\<exists>m self' w'.
      get_post_insights stale_client (Many [''a'', ''b'', ''c'']) True late_world =
        Inr (m, self', w') \<and>
      sent w' = sent late_world @
        map (insights_request stale_client) (uncached stale_client [''a'', ''b'', ''c''] True) \<and>
      length (sent w') = 2 \<and> distinct (map fst m) \<and>
      fst ` set m = {''a'', ''b'', ''c''} \<and> length m = 3"
    using get_post_insights_counts [OF d p, of True late_world]
    unfolding k s n e a .
  then obtain m self' w' where
    "get_post_insights stale_client (Many [''a'', ''b'', ''c'']) True late_world = Inr (m, self', w')"
    "length (sent w') = 2" "distinct (map fst m)" "fst ` set m = {''a'', ''b'', ''c''}"
    "length m = 3"
    by (elim exE conjE)
  then have "\<exists>m self' w'.
      get_post_insights stale_client (Many [''a'', ''b'', ''c'']) True late_world =
        Inr (m, self', w') \<and>
      length (sent w') = 2 \<and> distinct (map fst m) \<and>
      fst ` set m = {''a'', ''b'', ''c''} \<and> length m = 3"
    by (intro exI conjI)
  then show ?thesis by (intro conjI d p)
qed

theorem failed_fetch_zero_filled_witness:
  "\<exists>m self' w'.
     get_post_insights (new_client ''t'') (Many [''a'', ''b'', ''c'']) True
       (quiet_world abc_upstream) = Inr (m, self', w') \<and>
     map_of m ''b'' = Some (zero_insights (new_client ''t''))"
proof -
  define wj where "wj = (quiet_world abc_upstream)\<lparr>sent := [insights_request (new_client ''t'') ''a'']\<rparr>"
  have p: "0 < insights_batch_size (new_client ''t'')" by (simp add: new_client_def)
  have u: "uncached (new_client ''t'') [''a'', ''b'', ''c''] True = [''a'', ''b'', ''c'']"
    by (simp add: uncached_eq new_client_def)
  have j: "1 < length (uncached (new_client ''t'') [''a'', ''b'', ''c''] True)"
    by (simp add: u)
  have l: "uncached (new_client ''t'') [''a'', ''b'', ''c''] True ! 1 \<notin>
             set (drop (Suc 1) (uncached (new_client ''t'') [''a'', ''b'', ''c''] True))"
    by (simp add: u)
  have wj: "net wj = net (quiet_world abc_upstream) \<and>
            length (sent wj) = length (sent (quiet_world abc_upstream)) + 1"
    by (simp add: wj_def quiet_world_def)
  have f: "fst (fetch_insight (new_client ''t'') ''b'' wj) = Inl RequestException"
    by (simp add: fetch_insight_fst answer_insights_def wj_def quiet_world_def abc_upstream_def
        insights_request_def api_request_def new_client_def)
  from failed_fetch_zero_filled [OF p j l, of "quiet_world abc_upstream"]
  obtain m self' w' where
    r: "get_post_insights (new_client ''t'') (Many [''a'', ''b'', ''c'']) True
          (quiet_world abc_upstream) = Inr (m, self', w')"
    and a: "\<forall>wj. net wj = net (quiet_world abc_upstream) \<and>
                  length (sent wj) = length (sent (quiet_world abc_upstream)) + 1 \<longrightarrow>
              map_of m (uncached (new_client ''t'') [''a'', ''b'', ''c''] True ! 1) =
                Some (case fst (fetch_insight (new_client ''t'')
                                  (uncached (new_client ''t'') [''a'', ''b'', ''c''] True ! 1) wj) of
                        Inl e \<Rightarrow> zero_insights (new_client ''t'') | Inr ins \<Rightarrow> ins)"
    by blast
  from a wj have "map_of m (uncached (new_client ''t'') [''a'', ''b'', ''c''] True ! 1) =
                Some (case fst (fetch_insight (new_client ''t'')
                                  (uncached (new_client ''t'') [''a'', ''b'', ''c''] True ! 1) wj) of
                        Inl e \<Rightarrow> zero_insights (new_client ''t'') | Inr ins \<Rightarrow> ins)"
    by blast
  then have "map_of m ''b'' = Some (zero_insights (new_client ''t''))"
    by (simp add: u f)
  with r show ?thesis by blast
qed

theorem get_post_insights_without_cache_witness:
  "0 < insights_batch_size stale_client \<and>
   (\<exists>m w'. get_post_insights stale_client (Single ''a'') False late_world =
              Inr (m, stale_client, w') \<and>
            sent w' = [insights_request stale_client ''a''])"
proof -
  have p: "0 < insights_batch_size stale_client" by (simp add: stale_client_def new_client_def)
  have s: "sent late_world = []" by (simp add: late_world_def quiet_world_def)
  from get_post_insights_without_cache [OF p, of "Single ''a''" late_world]
  obtain m w' where
    "get_post_insights stale_client (Single ''a'') False late_world = Inr (m, stale_client, w')"
    "sent w' = sent late_world @ map (insights_request stale_client) (requested (Single ''a''))"
    by blast
  then have "get_post_insights stale_client (Single ''a'') False late_world =
               Inr (m, stale_client, w') \<and>
             sent w' = [insights_request stale_client ''a'']"
    by (simp add: s requested_def)
  with p show ?thesis by blast
qed

subsection \<open>Pagination\<close>



text \<open>
  Every run of the loop that returns is a chain of turns that went through, ended by an
  empty endpoint, a \<open>break\<close> or an exception: the states \<open>paged\<close> reaches are all the
  states at which a run sends a request.
\<close>

lemma paged_prepend:
  assumes "paged self limit t since s1 s'"
    and "s1 = (np1, acc1, w1)" and "np \<noteq> []"
    and "fetch_page self limit t since np acc w = (Inr (Some np1), acc1, w1)"
  shows "paged self limit t since (np, acc, w) s'"
  using assms
proof (induction rule: paged.induct)
  case (paged_refl s)
  have "paged self limit t since (np, acc, w) (np, acc, w)" by (rule paged.paged_refl)
  then have "paged self limit t since (np, acc, w) (np1, acc1, w1)"
    using paged_refl.prems(2,3) by (rule paged.paged_step)
  then show ?case by (simp add: paged_refl.prems(1))
next
  case (paged_step s np2 acc2 w2 np3 acc3 w3)
  have "paged self limit t since (np, acc, w) (np2, acc2, w2)"
    using paged_step.IH paged_step.prems by simp
  then show ?case using paged_step.hyps(2,3) by (rule paged.paged_step)
qed

lemma posts_loop_run:
  "posts_loop self limit t since np acc w = Some res \<Longrightarrow>
   \<exists>np' acc' w1.
     paged self limit t since (np, acc, w) (np', acc', w1) \<and>
     (np' = [] \<and> res = (acc', w1) \<or>
      np' \<noteq> [] \<and>
      (\<exists>r acc'' w2. fetch_page self limit t since np' acc' w1 = (r, acc'', w2) \<and>
         (r = Inr None \<and> res = (acc'', w2) \<or>
          (\<exists>e. r = Inl e \<and> res = (acc'', log_error (ErrorFetchingPosts e) w2)))))"
proof (induction rule: posts_loop.raw_induct [rotated 1, consumes 1])
  case (1 posts_loop self limit t since np acc w res)
  show ?case
  proof (cases "np = []")
    case True
    with 1(2) have "res = (acc, w)" by simp
    with True show ?thesis using paged_refl by blast
  next
    case False
    obtain r acc1 w1 where f: "fetch_page self limit t since np acc w = (r, acc1, w1)"
      by (cases "fetch_page self limit t since np acc w") auto
    show ?thesis
    proof (cases r)
      case (Inl e)
      with 1(2) False f have "res = (acc1, log_error (ErrorFetchingPosts e) w1)" by simp
      with False f Inl show ?thesis using paged_refl by blast
    next
      case (Inr o1)
      show ?thesis
      proof (cases o1)
        case None
        with 1(2) False f Inr have "res = (acc1, w1)" by simp
        with False f Inr None show ?thesis using paged_refl by blast
      next
        case (Some np1)
        with 1(2) False f Inr have "posts_loop self limit t since np1 acc1 w1 = Some res" by simp
        from 1(1) [OF this] obtain np' acc' w' where
          p: "paged self limit t since (np1, acc1, w1) (np', acc', w')"
          and rest: "np' = [] \<and> res = (acc', w') \<or>
            np' \<noteq> [] \<and>
            (\<exists>r acc'' w2. fetch_page self limit t since np' acc' w' = (r, acc'', w2) \<and>
               (r = Inr None \<and> res = (acc'', w2) \<or>
                (\<exists>e. r = Inl e \<and> res = (acc'', log_error (ErrorFetchingPosts e) w2))))"
          by blast
        have "paged self limit t since (np, acc, w) (np', acc', w')"
          using p _ False by (rule paged_prepend) (simp_all add: f Inr Some)
        with rest show ?thesis by blast
      qed
    qed
  qed
qed














section \<open>Properties of the credential store\<close>


lemma load_sealed:
  "load_credentials toy_lib toy_manager (sealed_os ''k1threads_token=abc'') = Inr toy_creds"
  by (simp add: load_credentials_def load_credentials_body_def lift_py_def ebind_def or_raise_def
      read_bytes_def path_exists_def toy_lib_def toy_manager_def toy_fernet_def sealed_os_def)





text \<open>
  C4, as the code has it. A blob that Fernet rejects (corrupted, or sealed under another
  key) makes \<open>load_credentials\<close> fail with
  \<open>CryptoError("Invalid encryption key or corrupted data")\<close>; a mapping is returned only
  if it is the parse of the plaintext that Fernet opened under this key; and an absent
  blob makes it fail with the same exception class, the not-found error wrapped as
  \<open>CryptoError("Decryption failed: Credentials file not found")\<close>.
\<close>

theorem load_credentials_failures:
  "(\<not> path_exists os (credentials_path self) \<longrightarrow>
      load_credentials lib self os =
        Inl (CryptoError (DecryptionFailed (CryptoError CredentialsFileNotFound)))) \<and>
   (\<forall>blob. path_exists os (credentials_path self) \<and>
           read_bytes (credentials_path self) os = Inr blob \<and>
           decrypt (the_fernet self) blob = None \<longrightarrow>
      load_credentials lib self os = Inl (CryptoError InvalidKeyOrCorruptedData)) \<and>
   (\<forall>m. load_credentials lib self os = Inr m \<longrightarrow>
      (\<exists>blob plain txt.
         read_bytes (credentials_path self) os = Inr blob \<and>
         decrypt (the_fernet self) blob = Some plain \<and>
         bytes_decode lib plain = Some txt \<and>
         json_loads lib txt = Some m))"
proof (intro conjI allI impI)
  assume "\<not> path_exists os (credentials_path self)"
  then show "load_credentials lib self os =
        Inl (CryptoError (DecryptionFailed (CryptoError CredentialsFileNotFound)))"
    by (simp add: load_credentials_def load_credentials_body_def)
next
  fix blob
  assume "path_exists os (credentials_path self) \<and>
           read_bytes (credentials_path self) os = Inr blob \<and>
           decrypt (the_fernet self) blob = None"
  then show "load_credentials lib self os = Inl (CryptoError InvalidKeyOrCorruptedData)"
    by (simp add: load_credentials_def load_credentials_body_def lift_py_def ebind_def or_raise_def)
next
  fix m
  assume "load_credentials lib self os = Inr m"
  then show "\<exists>blob plain txt.
         read_bytes (credentials_path self) os = Inr blob \<and>
         decrypt (the_fernet self) blob = Some plain \<and>
         bytes_decode lib plain = Some txt \<and>
         json_loads lib txt = Some m"
    by (auto simp: load_credentials_def load_credentials_body_def lift_py_def ebind_def or_raise_def
        split: if_splits sum.splits option.splits exn.splits py_error.splits)
qed

theorem load_credentials_failures_witness:
  "load_credentials toy_lib toy_manager (sealed_os ''k2threads_token=abc'') =
     Inl (CryptoError InvalidKeyOrCorruptedData)"
proof -
  have "path_exists (sealed_os ''k2threads_token=abc'') (credentials_path toy_manager) \<and>
        read_bytes (credentials_path toy_manager) (sealed_os ''k2threads_token=abc'') =
          Inr ''k2threads_token=abc'' \<and>
        decrypt (the_fernet toy_manager) ''k2threads_token=abc'' = None"
    by (simp add: path_exists_def read_bytes_def sealed_os_def toy_manager_def toy_fernet_def)
  then show ?thesis
    by (rule load_credentials_failures [of "sealed_os ''k2threads_token=abc''" toy_manager toy_lib,
          THEN conjunct2, THEN conjunct1, THEN spec [of _ "''k2threads_token=abc''"], THEN mp])
qed

text \<open>
  C4 as stated fails for an absent blob: the error raised is the \<open>CryptoError\<close> that
  \<open>load_credentials\<close> raises for any failure, labelled "Decryption failed"; no error of
  another kind is raised.
\<close>

theorem absent_blob_reported_as_decryption_failure:
  "load_credentials toy_lib toy_manager fresh_os =
     Inl (CryptoError (DecryptionFailed (CryptoError CredentialsFileNotFound)))"
  by (simp add: load_credentials_def load_credentials_body_def path_exists_def
      fresh_os_def toy_manager_def)

text \<open>
  C8. When the blob unseals to a mapping, \<open>get_single_credential\<close> fails for a name the
  mapping does not have, with the \<open>CryptoError\<close> that wraps the not-found error for that
  name, and returns the value of a name the mapping has.
\<close>

theorem get_single_credential_lookup:
  assumes "load_credentials lib self os = Inr (JObj kvs)"
  shows "(key \<notin> fst ` set kvs \<longrightarrow>
            get_single_credential lib self key os =
              Inl (CryptoError (CredentialLookupFailed key (CryptoError (CredentialMissing key))))) \<and>
         (\<forall>v. map_of kvs key = Some v \<longrightarrow> get_single_credential lib self key os = Inr v)"
proof (intro conjI allI impI)
  assume "key \<notin> fst ` set kvs"
  then show "get_single_credential lib self key os =
              Inl (CryptoError (CredentialLookupFailed key (CryptoError (CredentialMissing key))))"
    by (simp add: get_single_credential_def get_single_credential_body_def assms ebind_def lift_py_def)
next
  fix v
  assume v: "map_of kvs key = Some v"
  then have "key \<in> fst ` set kvs" by (metis map_of_eq_None_iff option.distinct(1))
  with v show "get_single_credential lib self key os = Inr v"
    by (simp add: get_single_credential_def get_single_credential_body_def assms ebind_def lift_py_def)
qed

theorem get_single_credential_lookup_witness:
  "get_single_credential toy_lib toy_manager ''spreadsheet_id'' (sealed_os ''k1threads_token=abc'') =
     Inl (CryptoError (CredentialLookupFailed ''spreadsheet_id''
            (CryptoError (CredentialMissing ''spreadsheet_id'')))) \<and>
   get_single_credential toy_lib toy_manager ''threads_token'' (sealed_os ''k1threads_token=abc'') =
     Inr (JStr ''abc'')"
proof -
  have l: "load_credentials toy_lib toy_manager (sealed_os ''k1threads_token=abc'') =
             Inr (JObj [(''threads_token'', JStr ''abc'')])"
    using load_sealed by (simp add: toy_creds_def)
  have a: "''spreadsheet_id'' \<notin> fst ` set [(''threads_token'', JStr ''abc'')]" by simp
  have b: "map_of [(''threads_token'', JStr ''abc'')] ''threads_token'' = Some (JStr ''abc'')" by simp
  from a
  have 1: "get_single_credential toy_lib toy_manager ''spreadsheet_id'' (sealed_os ''k1threads_token=abc'') =
     Inl (CryptoError (CredentialLookupFailed ''spreadsheet_id''
            (CryptoError (CredentialMissing ''spreadsheet_id''))))"
    by (rule get_single_credential_lookup [OF l, of "''spreadsheet_id''", THEN conjunct1, THEN mp])
  from b
  have 2: "get_single_credential toy_lib toy_manager ''threads_token'' (sealed_os ''k1threads_token=abc'') =
     Inr (JStr ''abc'')"
    by (rule get_single_credential_lookup [OF l, of "''threads_token''", THEN conjunct2,
          THEN spec [of _ "JStr ''abc''"], THEN mp])
  from 1 2 show ?thesis by (rule conjI)
qed

end
